theory Spec2Isabelle
  imports Main
begin

section \<open>Python strings\<close>

text \<open>
  A Python \<open>str\<close> is a sequence of code points. The model is \<open>string\<close>, one \<open>char\<close>
  per code point, which covers the code points below 256 (Latin-1). \<open>length\<close> counts
  code points, as Python's \<open>len\<close> does.
\<close>

text \<open>
  \<open>str.isspace\<close> on one code point, which is also what \<open>str.strip()\<close>, \<open>str.split()\<close>
  and the regular expression class \<open>\s\<close> use: below 256 these are TAB, LF, VT, FF, CR,
  the four separators FS, GS, RS, US, the space, NEL and the no-break space.
\<close>

definition is_space :: "char \<Rightarrow> bool" where
  "is_space c = (c \<in> {CHR 0x09, CHR 0x0A, CHR 0x0B, CHR 0x0C, CHR 0x0D,
                       CHR 0x1C, CHR 0x1D, CHR 0x1E, CHR 0x1F, CHR 0x20,
                       CHR 0x85, CHR 0xA0})"

text \<open>
  \<open>str.lower\<close> on one code point below 256: \<open>A\<close>..\<open>Z\<close> and the accented capitals
  0xC0..0xDE (the multiplication sign 0xD7 apart) move up by 32, nothing else changes.
\<close>

definition char_lower :: "char \<Rightarrow> char" where
  "char_lower c =
     (let n = (of_char c :: nat)
      in if (65 \<le> n \<and> n \<le> 90) \<or> (192 \<le> n \<and> n \<le> 222 \<and> n \<noteq> 215)
         then char_of (n + 32) else c)"

definition lower :: "string \<Rightarrow> string" where
  "lower s = map char_lower s"

definition strip :: "string \<Rightarrow> string" where
  "strip s = rev (dropWhile is_space (rev (dropWhile is_space s)))"

definition startswith :: "string \<Rightarrow> string \<Rightarrow> bool" where
  "startswith s p = (take (length p) s = p)"

definition endswith :: "string \<Rightarrow> string \<Rightarrow> bool" where
  "endswith s p = (length p \<le> length s \<and> drop (length s - length p) s = p)"

text \<open>
  \<open>str.split()\<close> without arguments: the maximal runs of non-whitespace characters, in
  order. \<open>cur\<close> is the token being read.
\<close>

fun split_scan :: "string \<Rightarrow> string \<Rightarrow> string list" where
  "split_scan cur [] = (if cur = [] then [] else [cur])"
| "split_scan cur (c # cs) =
     (if is_space c
      then (if cur = [] then split_scan [] cs else cur # split_scan [] cs)
      else split_scan (cur @ [c]) cs)"

definition split_ws :: "string \<Rightarrow> string list" where
  "split_ws s = split_scan [] s"

section \<open>Regular expressions\<close>

text \<open>
  The fragment of Python's \<open>re\<close> syntax that the detector's patterns use. Repetition is
  only ever applied to a single-character item (\<open>\s+\<close>, \<open>.*\<close>, \<open>\?*\<close>, \<open>[.!?]+\<close>).
\<close>

datatype item =
    Chr char        \<comment> \<open>a literal character\<close>
  | Space           \<comment> \<open>\<open>\s\<close>\<close>
  | Dot             \<comment> \<open>\<open>.\<close>, any character but the line feed\<close>
  | Cls "char list" \<comment> \<open>\<open>[...]\<close>\<close>

datatype rexp =
    Single item     \<comment> \<open>the item once\<close>
  | Many item       \<comment> \<open>\<open>*\<close>, greedy\<close>
  | Many1 item      \<comment> \<open>\<open>+\<close>, greedy\<close>
  | Alt rexp rexp   \<comment> \<open>\<open>|\<close>\<close>
  | Cat rexp rexp
  | Eps
  | Eol             \<comment> \<open>\<open>$\<close>\<close>

text \<open>A literal word, and an alternation of several branches.\<close>

fun lit :: "string \<Rightarrow> rexp" where
  "lit [] = Eps"
| "lit (c # cs) = Cat (Single (Chr c)) (lit cs)"

fun alts :: "rexp list \<Rightarrow> rexp" where
  "alts [] = Eps"
| "alts [r] = r"
| "alts (r # rs) = Alt r (alts rs)"

text \<open>
  Whether an item accepts a character; \<open>ic\<close> is the flag \<open>re.IGNORECASE\<close>, under which
  a literal is compared after lowering both sides.
\<close>

fun item_ok :: "bool \<Rightarrow> item \<Rightarrow> char \<Rightarrow> bool" where
  "item_ok ic (Chr x) c = (if ic then char_lower c = char_lower x else c = x)"
| "item_ok ic Space c = is_space c"
| "item_ok ic Dot c = (c \<noteq> CHR 0x0A)"
| "item_ok ic (Cls xs) c =
     (if ic then char_lower c \<in> set (map char_lower xs) else c \<in> set xs)"

text \<open>
  The backtracking matcher: \<open>rmatch ic r s\<close> lists what can be left of \<open>s\<close> after a match
  of \<open>r\<close> at its start, in the order in which the engine tries the matches (a greedy
  repetition gives its longest match first). \<open>$\<close> holds at the end of the text and
  just before a line feed that ends it.
\<close>

fun many :: "bool \<Rightarrow> item \<Rightarrow> string \<Rightarrow> string list" where
  "many ic a [] = [[]]"
| "many ic a (c # cs) = (if item_ok ic a c then many ic a cs else []) @ [c # cs]"

fun rmatch :: "bool \<Rightarrow> rexp \<Rightarrow> string \<Rightarrow> string list" where
  "rmatch ic (Single a) s =
     (case s of [] \<Rightarrow> [] | c # cs \<Rightarrow> if item_ok ic a c then [cs] else [])"
| "rmatch ic (Many a) s = many ic a s"
| "rmatch ic (Many1 a) s =
     (case s of [] \<Rightarrow> [] | c # cs \<Rightarrow> if item_ok ic a c then many ic a cs else [])"
| "rmatch ic (Alt r1 r2) s = rmatch ic r1 s @ rmatch ic r2 s"
| "rmatch ic (Cat r1 r2) s = concat (map (rmatch ic r2) (rmatch ic r1 s))"
| "rmatch ic Eps s = [s]"
| "rmatch ic Eol s = (if s = [] \<or> s = [CHR 0x0A] then [s] else [])"

text \<open>
  A compiled pattern: its flag, whether it opens with \<open>^\<close>, and the rest of it.
  \<open>search\<close> is \<open>Pattern.search\<close> read as a truth value: a match at the start of the
  text for a pattern with \<open>^\<close>, at any position otherwise.
\<close>

record pattern =
  ignorecase :: bool
  bol :: bool
  body :: rexp

fun tails :: "string \<Rightarrow> string list" where
  "tails [] = [[]]"
| "tails (c # cs) = (c # cs) # tails cs"

definition search :: "pattern \<Rightarrow> string \<Rightarrow> bool" where
  "search p s =
     (if bol p then rmatch (ignorecase p) (body p) s \<noteq> []
      else list_ex (\<lambda>t. rmatch (ignorecase p) (body p) t \<noteq> []) (tails s))"

definition compile :: "bool \<Rightarrow> bool \<Rightarrow> rexp \<Rightarrow> pattern" where
  "compile ic anchored r = \<lparr>ignorecase = ic, bol = anchored, body = r\<rparr>"

section \<open>QuestionDetector\<close>

datatype error = IndexError

record detector =
  question_words :: "string set"
  compiled_patterns :: "pattern list"

text \<open>
  The five entries of \<open>question_patterns\<close>, in the order of the source, each paired
  with whether it opens with \<open>^\<close>:
  \<^enum> \<^verbatim>\<open>\?$\<close> (ends with question mark)
  \<^enum> \<^verbatim>\<open>^(what|when|where|who|whom|whose|which|why|how)\s+\<close> (starts with question word)
  \<^enum> \<^verbatim>\<open>^(is|are|was|were|do|does|did|can|could|will|would|should)\s+\<close> (starts with auxiliary)
  \<^enum> \<^verbatim>\<open>^(tell me|explain|describe|define|calculate|solve)\s+\<close> (command-like questions)
  \<^enum> \<^verbatim>\<open>(what|how|why|when|where)\s+.*\?*$\<close> (contains question word)
\<close>

definition ends_with_mark :: rexp where
  "ends_with_mark = Cat (Single (Chr CHR ''?'')) Eol"

definition starts_with_question_word :: rexp where
  "starts_with_question_word =
     Cat (alts (map lit [''what'', ''when'', ''where'', ''who'', ''whom'', ''whose'',
                         ''which'', ''why'', ''how'']))
         (Many1 Space)"

definition starts_with_auxiliary :: rexp where
  "starts_with_auxiliary =
     Cat (alts (map lit [''is'', ''are'', ''was'', ''were'', ''do'', ''does'', ''did'',
                         ''can'', ''could'', ''will'', ''would'', ''should'']))
         (Many1 Space)"

definition command_like :: rexp where
  "command_like =
     Cat (alts (map lit [''tell me'', ''explain'', ''describe'', ''define'', ''calculate'',
                         ''solve'']))
         (Many1 Space)"

definition contains_question_word :: rexp where
  "contains_question_word =
     Cat (alts (map lit [''what'', ''how'', ''why'', ''when'', ''where'']))
         (Cat (Many1 Space) (Cat (Many Dot) (Cat (Many (Chr CHR ''?'')) Eol)))"

definition question_patterns :: "(bool \<times> rexp) list" where
  "question_patterns =
     [(False, ends_with_mark),
      (True, starts_with_question_word),
      (True, starts_with_auxiliary),
      (True, command_like),
      (False, contains_question_word)]"

text \<open>\<open>__init__\<close>: the word set, and the patterns compiled with \<open>re.IGNORECASE\<close>.\<close>

definition init :: detector where
  "init =
    \<lparr> question_words =
        {''what'', ''when'', ''where'', ''who'', ''whom'', ''whose'', ''which'', ''why'',
         ''how'', ''is'', ''are'', ''was'', ''were'', ''do'', ''does'', ''did'', ''can'',
         ''could'', ''will'', ''would'', ''should'', ''shall'', ''may'', ''might'',
         ''must'', ''am'', ''has'', ''have'', ''had''},
      compiled_patterns = map (\<lambda>(anchored, r). compile True anchored r) question_patterns \<rparr>"

text \<open>The set literal of the last check of \<open>is_question\<close>.\<close>

definition auxiliaries :: "string set" where
  "auxiliaries =
     {''is'', ''are'', ''was'', ''were'', ''do'', ''does'', ''did'', ''can'', ''could'',
      ''will'', ''would'', ''should'', ''shall'', ''may'', ''might'', ''must'', ''have'',
      ''has'', ''had''}"

text \<open>
  \<open>is_question\<close>. The indexing \<open>text.split()[0]\<close> raises \<open>IndexError\<close> on an empty
  token list; \<open>words[0]\<close> is read only under \<open>len(words) >= 2\<close>.
\<close>

definition is_question :: "detector \<Rightarrow> string \<Rightarrow> error + bool" where
  "is_question self text0 =
     (if text0 = [] \<or> length (strip text0) < 3 then Inr False
      else
        let text = strip text0 in
        if endswith text ''?'' then Inr True
        else if list_ex (\<lambda>p. search p text) (compiled_patterns self) then Inr True
        else
          (case split_ws text of
             [] \<Rightarrow> Inl IndexError
           | w # _ \<Rightarrow>
               let first_word = lower w in
               if first_word \<in> question_words self then Inr True
               else
                 let words = split_ws (lower text) in
                 if length words \<ge> 2
                 then (if words ! 0 \<in> auxiliaries then Inr True else Inr False)
                 else Inr False))"

text \<open>
  \<open>re.split(pattern, text)\<close> for a pattern that matches no empty string: the text is
  read from the left; at a position where the pattern matches, the piece collected so
  far is cut off and reading goes on after the engine's first match; elsewhere the
  character joins the piece. The last piece is always returned, also when empty.
\<close>

definition nonempty_match :: "rexp \<Rightarrow> string \<Rightarrow> string option" where
  "nonempty_match r s =
     (case rmatch False r s of
        [] \<Rightarrow> None
      | rest # _ \<Rightarrow> if length rest < length s then Some rest else None)"

function re_split_scan :: "rexp \<Rightarrow> string \<Rightarrow> string \<Rightarrow> string list" where
  "re_split_scan r cur s =
     (case nonempty_match r s of
        Some rest \<Rightarrow> cur # re_split_scan r [] rest
      | None \<Rightarrow> (case s of [] \<Rightarrow> [cur] | c # cs \<Rightarrow> re_split_scan r (cur @ [c]) cs))"
  by pat_completeness auto
termination
  by (relation "measure (\<lambda>(r, cur, s). length s)")
     (auto simp: nonempty_match_def split: list.splits if_splits)

definition re_split :: "rexp \<Rightarrow> string \<Rightarrow> string list" where
  "re_split r s = re_split_scan r [] s"

text \<open>The pattern \<^verbatim>\<open>[.!?]+\<close> of \<open>extract_questions\<close>.\<close>

definition sentence_delimiters :: rexp where
  "sentence_delimiters = Many1 (Cls ''.!?'')"

text \<open>
  \<open>extract_questions\<close>: the loop over the sentences, \<open>questions\<close> being the list built so
  far. An error of \<open>is_question\<close> leaves the loop, as the exception would.
\<close>

fun extract_loop :: "detector \<Rightarrow> string list \<Rightarrow> string list \<Rightarrow> error + string list" where
  "extract_loop self [] questions = Inr questions"
| "extract_loop self (sentence0 # sentences) questions =
     (let sentence = strip sentence0 in
      if sentence = [] then extract_loop self sentences questions
      else
        (case is_question self sentence of
           Inl e \<Rightarrow> Inl e
         | Inr False \<Rightarrow> extract_loop self sentences questions
         | Inr True \<Rightarrow>
             extract_loop self sentences
               (questions @ [if \<not> endswith sentence ''?'' then sentence @ ''?'' else sentence])))"

definition extract_questions :: "detector \<Rightarrow> string \<Rightarrow> error + string list" where
  "extract_questions self text = extract_loop self (re_split sentence_delimiters text) []"

text \<open>
  \<open>get_question_type\<close>. \<open>first_starting\<close> is the loop over the question words that
  returns at the first word the text starts with; \<open>yes_no_starters\<close> is the method's
  local set.
\<close>

fun first_starting :: "string \<Rightarrow> string list \<Rightarrow> string option" where
  "first_starting t [] = None"
| "first_starting t (q_word # q_words) =
     (if startswith t q_word then Some q_word else first_starting t q_words)"

definition yes_no_starters :: "string set" where
  "yes_no_starters =
     {''is'', ''are'', ''was'', ''were'', ''do'', ''does'', ''did'', ''can'', ''could'',
      ''will'', ''would'', ''should'', ''shall'', ''may'', ''might'', ''must'', ''have'',
      ''has'', ''had''}"

definition get_question_type :: "detector \<Rightarrow> string \<Rightarrow> string" where
  "get_question_type self question =
     (let question_lower = strip (lower question) in
      case first_starting question_lower
             [''what'', ''when'', ''where'', ''who'', ''whom'', ''whose'', ''which'',
              ''why'', ''how''] of
        Some q_word \<Rightarrow> q_word
      | None \<Rightarrow>
          let first_word =
                (if split_ws question_lower \<noteq> [] then split_ws question_lower ! 0 else [])
          in
          if first_word \<in> yes_no_starters then ''yes/no''
          else if list_ex (startswith question_lower)
                    [''tell me'', ''explain'', ''describe'', ''define'']
          then ''explanation''
          else if list_ex (startswith question_lower) [''calculate'', ''solve'', ''compute'']
          then ''calculation''
          else ''other'')"

section \<open>The detector as an object in a store\<close>

text \<open>
  A Python object has an identity and can be changed in place. The store holds the
  objects that a method reaches through \<open>self\<close> or changes: the detector instance with
  its attributes, the set and the two lists that \<open>__init__\<close> builds, and the list
  \<open>questions\<close> that \<open>extract_questions\<close> creates, fills with \<open>append\<close> and returns. An
  address is a position in the store; a new object goes to the end of the store.
  Strings are immutable and stay values, and so do the lists that a method only reads
  (the results of \<open>split\<close> and \<open>re.split\<close>, the literals).
\<close>

type_synonym addr = nat

datatype obj =
    Instance "string \<rightharpoonup> addr"          \<comment> \<open>an instance: its attributes\<close>
  | SetObj "string set"
  | SourceList "(bool \<times> rexp) list"   \<comment> \<open>a list of pattern sources\<close>
  | PatternList "pattern list"         \<comment> \<open>a list of compiled patterns\<close>
  | StrList "string list"

type_synonym store = "obj list"

datatype exn = Raised error | AttributeError | TypeError

definition alloc :: "obj \<Rightarrow> store \<Rightarrow> addr \<times> store" where
  "alloc v h = (length h, h @ [v])"

text \<open>\<open>self.name\<close> read and assigned.\<close>

definition getattr :: "store \<Rightarrow> addr \<Rightarrow> string \<Rightarrow> exn + addr" where
  "getattr h self name =
     (if self < length h
      then (case h ! self of
              Instance attrs \<Rightarrow>
                (case attrs name of Some a \<Rightarrow> Inr a | None \<Rightarrow> Inl AttributeError)
            | _ \<Rightarrow> Inl AttributeError)
      else Inl AttributeError)"

definition setattr :: "store \<Rightarrow> addr \<Rightarrow> string \<Rightarrow> addr \<Rightarrow> store" where
  "setattr h self name a =
     (if self < length h
      then (case h ! self of
              Instance attrs \<Rightarrow> h[self := Instance (attrs(name \<mapsto> a))]
            | _ \<Rightarrow> h)
      else h)"

text \<open>The object that an attribute refers to, read as the container the method expects.\<close>

definition attr_set :: "store \<Rightarrow> addr \<Rightarrow> string \<Rightarrow> exn + string set" where
  "attr_set h self name =
     (case getattr h self name of
        Inl e \<Rightarrow> Inl e
      | Inr a \<Rightarrow>
          (if a < length h
           then (case h ! a of SetObj ws \<Rightarrow> Inr ws | _ \<Rightarrow> Inl TypeError)
           else Inl TypeError))"

definition attr_sources :: "store \<Rightarrow> addr \<Rightarrow> string \<Rightarrow> exn + (bool \<times> rexp) list" where
  "attr_sources h self name =
     (case getattr h self name of
        Inl e \<Rightarrow> Inl e
      | Inr a \<Rightarrow>
          (if a < length h
           then (case h ! a of SourceList xs \<Rightarrow> Inr xs | _ \<Rightarrow> Inl TypeError)
           else Inl TypeError))"

definition attr_patterns :: "store \<Rightarrow> addr \<Rightarrow> string \<Rightarrow> exn + pattern list" where
  "attr_patterns h self name =
     (case getattr h self name of
        Inl e \<Rightarrow> Inl e
      | Inr a \<Rightarrow>
          (if a < length h
           then (case h ! a of PatternList ps \<Rightarrow> Inr ps | _ \<Rightarrow> Inl TypeError)
           else Inl TypeError))"

text \<open>\<open>xs.append(x)\<close> on the list at an address, and the contents of that list.\<close>

definition list_append :: "store \<Rightarrow> addr \<Rightarrow> string \<Rightarrow> exn + store" where
  "list_append h a x =
     (if a < length h
      then (case h ! a of
              StrList xs \<Rightarrow> Inr (h[a := StrList (xs @ [x])])
            | _ \<Rightarrow> Inl AttributeError)
      else Inl AttributeError)"

definition list_at :: "store \<Rightarrow> addr \<Rightarrow> exn + string list" where
  "list_at h a =
     (if a < length h
      then (case h ! a of StrList xs \<Rightarrow> Inr xs | _ \<Rightarrow> Inl TypeError)
      else Inl TypeError)"

text \<open>
  \<open>__init__\<close> on the instance at \<open>self\<close>: the three assignments, each of a new object;
  the third reads \<open>self.question_patterns\<close> back. The word set and the patterns are
  those of \<open>init\<close> above. \<open>new_detector\<close> is \<open>QuestionDetector()\<close>.
\<close>

definition init_object :: "addr \<Rightarrow> store \<Rightarrow> store" where
  "init_object self h0 =
     (let (words, h1) = alloc (SetObj (question_words init)) h0;
          h2 = setattr h1 self ''question_words'' words;
          (sources, h3) = alloc (SourceList question_patterns) h2;
          h4 = setattr h3 self ''question_patterns'' sources;
          read_back = (case attr_sources h4 self ''question_patterns'' of
                         Inl e \<Rightarrow> [] | Inr xs \<Rightarrow> xs);
          (compiled, h5) =
             alloc (PatternList (map (\<lambda>(anchored, r). compile True anchored r) read_back)) h4
      in setattr h5 self ''compiled_patterns'' compiled)"

definition new_detector :: "store \<Rightarrow> addr \<times> store" where
  "new_detector h0 =
     (let (self, h1) = alloc (Instance Map.empty) h0 in (self, init_object self h1))"

text \<open>
  The three methods on the store, statement by statement: \<open>is_question\<close> reads
  \<open>self.compiled_patterns\<close> and \<open>self.question_words\<close> where the source does,
  \<open>extract_questions\<close> creates \<open>questions\<close>, calls \<open>self.is_question\<close> for every sentence
  and appends to \<open>questions\<close>, and \<open>get_question_type\<close> touches no object. Each returns
  its result, or the exception raised, and the store as it leaves it.
\<close>

definition is_question_h :: "addr \<Rightarrow> string \<Rightarrow> store \<Rightarrow> (exn + bool) \<times> store" where
  "is_question_h self text0 h =
     (if text0 = [] \<or> length (strip text0) < 3 then (Inr False, h)
      else
        let text = strip text0 in
        if endswith text ''?'' then (Inr True, h)
        else
          (case attr_patterns h self ''compiled_patterns'' of
             Inl e \<Rightarrow> (Inl e, h)
           | Inr patterns \<Rightarrow>
               if list_ex (\<lambda>p. search p text) patterns then (Inr True, h)
               else
                 (case split_ws text of
                    [] \<Rightarrow> (Inl (Raised IndexError), h)
                  | w # _ \<Rightarrow>
                      let first_word = lower w in
                      (case attr_set h self ''question_words'' of
                         Inl e \<Rightarrow> (Inl e, h)
                       | Inr words_set \<Rightarrow>
                           if first_word \<in> words_set then (Inr True, h)
                           else
                             let words = split_ws (lower text) in
                             if length words \<ge> 2
                             then (if words ! 0 \<in> auxiliaries then (Inr True, h)
                                   else (Inr False, h))
                             else (Inr False, h)))))"

fun extract_loop_h :: "addr \<Rightarrow> addr \<Rightarrow> string list \<Rightarrow> store \<Rightarrow> (exn + unit) \<times> store" where
  "extract_loop_h self questions [] h = (Inr (), h)"
| "extract_loop_h self questions (sentence0 # sentences) h =
     (let sentence = strip sentence0 in
      if sentence = [] then extract_loop_h self questions sentences h
      else
        (case is_question_h self sentence h of
           (Inl e, h1) \<Rightarrow> (Inl e, h1)
         | (Inr False, h1) \<Rightarrow> extract_loop_h self questions sentences h1
         | (Inr True, h1) \<Rightarrow>
             (case list_append h1 questions
                     (if \<not> endswith sentence ''?'' then sentence @ ''?'' else sentence) of
                Inl e \<Rightarrow> (Inl e, h1)
              | Inr h2 \<Rightarrow> extract_loop_h self questions sentences h2)))"

definition extract_questions_h :: "addr \<Rightarrow> string \<Rightarrow> store \<Rightarrow> (exn + addr) \<times> store" where
  "extract_questions_h self text h =
     (let (questions, h1) = alloc (StrList []) h;
          sentences = re_split sentence_delimiters text
      in case extract_loop_h self questions sentences h1 of
           (Inl e, h2) \<Rightarrow> (Inl e, h2)
         | (Inr u, h2) \<Rightarrow> (Inr questions, h2))"

definition get_question_type_h :: "addr \<Rightarrow> string \<Rightarrow> store \<Rightarrow> (exn + string) \<times> store" where
  "get_question_type_h self question h =
     (let question_lower = strip (lower question) in
      case first_starting question_lower
             [''what'', ''when'', ''where'', ''who'', ''whom'', ''whose'', ''which'',
              ''why'', ''how''] of
        Some q_word \<Rightarrow> (Inr q_word, h)
      | None \<Rightarrow>
          let first_word =
                (if split_ws question_lower \<noteq> [] then split_ws question_lower ! 0 else [])
          in
          if first_word \<in> yes_no_starters then (Inr ''yes/no'', h)
          else if list_ex (startswith question_lower)
                    [''tell me'', ''explain'', ''describe'', ''define'']
          then (Inr ''explanation'', h)
          else if list_ex (startswith question_lower) [''calculate'', ''solve'', ''compute'']
          then (Inr ''calculation'', h)
          else (Inr ''other'', h))"

text \<open>
  A call as its caller sees it: the value returned (for \<open>extract_questions\<close> the
  contents of the list returned) or the exception, and the store after the call.
  \<open>run\<close> makes a sequence of calls on the same detector, one after the other.
\<close>

datatype call = IsQuestion string | ExtractQuestions string | GetQuestionType string

datatype outcome = Raises exn | RetBool bool | RetList "string list" | RetStr string

fun invoke :: "addr \<Rightarrow> call \<Rightarrow> store \<Rightarrow> outcome \<times> store" where
  "invoke self (IsQuestion t) h =
     (case is_question_h self t h of
        (Inl e, h1) \<Rightarrow> (Raises e, h1)
      | (Inr b, h1) \<Rightarrow> (RetBool b, h1))"
| "invoke self (ExtractQuestions t) h =
     (case extract_questions_h self t h of
        (Inl e, h1) \<Rightarrow> (Raises e, h1)
      | (Inr questions, h1) \<Rightarrow>
          (case list_at h1 questions of
             Inl e \<Rightarrow> (Raises e, h1)
           | Inr qs \<Rightarrow> (RetList qs, h1)))"
| "invoke self (GetQuestionType t) h =
     (case get_question_type_h self t h of
        (Inl e, h1) \<Rightarrow> (Raises e, h1)
      | (Inr ty, h1) \<Rightarrow> (RetStr ty, h1))"

fun run :: "addr \<Rightarrow> call list \<Rightarrow> store \<Rightarrow> outcome list \<times> store" where
  "run self [] h = ([], h)"
| "run self (c # cs) h =
     (let (out, h1) = invoke self c h; (outs, h2) = run self cs h1
      in (out # outs, h2))"

text \<open>
  The detector that the methods see at \<open>self\<close>: the contents of the two attributes they
  read, when \<open>self\<close> is an instance that has them.
\<close>

definition load :: "store \<Rightarrow> addr \<Rightarrow> detector option" where
  "load h self =
     (case (attr_set h self ''question_words'', attr_patterns h self ''compiled_patterns'') of
        (Inr ws, Inr ps) \<Rightarrow> Some \<lparr>question_words = ws, compiled_patterns = ps\<rparr>
      | _ \<Rightarrow> None)"

text \<open>
  What a call returns according to the functions of the previous section, applied to
  the tables of the detector.
\<close>

fun observed :: "detector \<Rightarrow> call \<Rightarrow> outcome" where
  "observed d (IsQuestion t) =
     (case is_question d t of Inl e \<Rightarrow> Raises (Raised e) | Inr b \<Rightarrow> RetBool b)"
| "observed d (ExtractQuestions t) =
     (case extract_questions d t of Inl e \<Rightarrow> Raises (Raised e) | Inr qs \<Rightarrow> RetList qs)"
| "observed d (GetQuestionType t) = RetStr (get_question_type d t)"

section \<open>The specification's reading of sentence splitting\<close>

text \<open>
  The specification describes the split in its own words: one or more consecutive
  delimiter characters act as a single boundary, and the delimiters are discarded.
  \<open>split_runs\<close> and \<open>spec_extract_questions\<close> follow that description, to be
  compared with \<open>re_split\<close> and \<open>extract_questions\<close> above.
\<close>

definition is_delimiter :: "char \<Rightarrow> bool" where
  "is_delimiter c = (c = CHR ''.'' \<or> c = CHR ''!'' \<or> c = CHR ''?'')"

function split_runs :: "string \<Rightarrow> string list" where
  "split_runs s =
     (let fragment = takeWhile (\<lambda>c. \<not> is_delimiter c) s;
          rest = dropWhile (\<lambda>c. \<not> is_delimiter c) s
      in if rest = [] then [fragment]
         else fragment # split_runs (dropWhile is_delimiter rest))"
  by pat_completeness auto
termination
proof (relation "measure length")
  fix s fragment rest
  assume r: "rest = dropWhile (\<lambda>c. \<not> is_delimiter c) s" and ne: "rest \<noteq> []"
  from ne obtain c cs where rc: "rest = c # cs" by (cases rest) auto
  have "length (dropWhile is_delimiter rest) \<le> length rest"
    by (rule length_dropWhile_le)
  moreover from r rc have "dropWhile (\<lambda>c. \<not> is_delimiter c) s = c # cs"
    by simp
  then have "is_delimiter c"
    by (simp add: dropWhile_eq_Cons_conv)
  then have "length (dropWhile is_delimiter rest) < length rest"
    using rc length_dropWhile_le [of is_delimiter cs] by simp
  moreover have "length rest \<le> length s"
    unfolding r by (rule length_dropWhile_le)
  ultimately show "(dropWhile is_delimiter rest, s) \<in> measure length"
    by simp
qed simp

definition spec_extract_questions :: "detector \<Rightarrow> string \<Rightarrow> string list" where
  "spec_extract_questions self text =
     map (\<lambda>f. if endswith f ''?'' then f else f @ ''?'')
       (filter (\<lambda>f. is_question self f = Inr True)
         (filter (\<lambda>f. f \<noteq> [])
           (map strip (split_runs text))))"

section \<open>Auxiliary facts\<close>

declare re_split_scan.simps [simp del]
declare split_runs.simps [simp del]

lemma strip_Nil: "strip [] = []"
  by (simp add: strip_def)

lemma strip_has_nonspace:
  assumes "strip s \<noteq> []"
  shows "\<exists>c \<in> set (strip s). \<not> is_space c"
proof -
  let ?t = "dropWhile is_space (rev (dropWhile is_space s))"
  from assms have ne: "?t \<noteq> []" by (simp add: strip_def)
  then have "\<not> is_space (hd ?t)" by (rule hd_dropWhile)
  moreover from ne have "hd ?t \<in> set (strip s)" by (simp add: strip_def)
  ultimately show ?thesis by blast
qed

lemma split_scan_Nil_iff:
  "split_scan cur s = [] \<longleftrightarrow> cur = [] \<and> (\<forall>c \<in> set s. is_space c)"
  by (induction s arbitrary: cur) auto

lemma split_ws_Nil_iff: "split_ws s = [] \<longleftrightarrow> (\<forall>c \<in> set s. is_space c)"
  by (simp add: split_ws_def split_scan_Nil_iff)

lemma split_strip_nonempty:
  assumes "3 \<le> length (strip text)"
  shows "split_ws (strip text) \<noteq> []"
proof -
  from assms have "strip text \<noteq> []" by auto
  then obtain c where "c \<in> set (strip text)" "\<not> is_space c"
    using strip_has_nonspace by blast
  then show ?thesis by (auto simp: split_ws_Nil_iff)
qed

lemma is_question_total: "\<exists>b. is_question self text = Inr b"
proof (cases "length (strip text) < 3")
  case True
  then have "is_question self text = Inr False" by (simp add: is_question_def)
  then show ?thesis by blast
next
  case False
  then have "split_ws (strip text) \<noteq> []" by (simp add: split_strip_nonempty)
  then obtain w ws where "split_ws (strip text) = w # ws" by (cases "split_ws (strip text)") auto
  then have "is_question self text = Inr True \<or> is_question self text = Inr False"
    by (simp add: is_question_def Let_def)
  then show ?thesis by blast
qed

lemma split_scan_count:
  "2 * length (split_scan cur s) \<le> length s + (if cur = [] then 1 else 2)"
proof (induction s arbitrary: cur)
  case Nil
  then show ?case by simp
next
  case (Cons c cs)
  from Cons.IH [of "[]"] Cons.IH [of "cur @ [c]"] show ?case by auto
qed

lemma two_tokens_length: "2 \<le> length (split_ws s) \<Longrightarrow> 3 \<le> length s"
  using split_scan_count [of "[]" s] by (simp add: split_ws_def)

subsection \<open>Lower case and tokens\<close>

lemma char_eq_code: "(c = d) = ((of_char c :: nat) = of_char d)"
  by simp

lemma is_space_code:
  "is_space c \<longleftrightarrow> (of_char c :: nat) \<in> {9, 10, 11, 12, 13, 28, 29, 30, 31, 32, 133, 160}"
  by (simp only: is_space_def insert_iff empty_iff char_eq_code [of c]) simp

lemma is_space_char_lower: "is_space (char_lower c) = is_space c"
proof -
  have "(of_char c :: nat) < 256" by simp
  then show ?thesis
    unfolding is_space_code char_lower_def Let_def
    by (auto simp: mod_if)
qed

lemma split_scan_lower:
  "split_scan (lower cur) (lower s) = map lower (split_scan cur s)"
proof (induction s arbitrary: cur)
  case Nil
  then show ?case by (simp add: lower_def)
next
  case (Cons c cs)
  from Cons.IH [of "[]"] Cons.IH [of "cur @ [c]"] show ?case
    by (simp add: lower_def is_space_char_lower)
qed

lemma split_ws_lower: "split_ws (lower s) = map lower (split_ws s)"
  using split_scan_lower [of "[]" s] by (simp add: split_ws_def lower_def)

subsection \<open>The matcher\<close>

lemma rmatch_Cat_iff:
  "x \<in> set (rmatch ic (Cat a b) s) \<longleftrightarrow> (\<exists>m \<in> set (rmatch ic a s). x \<in> set (rmatch ic b m))"
  by simp

lemma many_self: "s \<in> set (many ic a s)"
  by (cases s) auto

lemma many_run:
  "\<forall>c \<in> set ws. item_ok ic a c \<Longrightarrow> rest \<in> set (many ic a (ws @ rest))"
  by (induction ws) (auto simp: many_self)

lemma many1_run:
  "ws \<noteq> [] \<Longrightarrow> \<forall>c \<in> set ws. item_ok ic a c \<Longrightarrow> rest \<in> set (rmatch ic (Many1 a) (ws @ rest))"
  by (cases ws) (auto simp: many_run)

lemma lit_match:
  "map char_lower v = map char_lower w \<Longrightarrow> x \<in> set (rmatch True (lit w) (v @ x))"
proof (induction w arbitrary: v)
  case Nil
  then show ?case by simp
next
  case (Cons c cs)
  then obtain d ds where v: "v = d # ds" by (cases v) auto
  with Cons.prems have "char_lower d = char_lower c" "map char_lower ds = map char_lower cs"
    by auto
  with Cons.IH [of ds] v show ?case by simp
qed

lemma alts_match:
  "r \<in> set rs \<Longrightarrow> x \<in> set (rmatch ic r s) \<Longrightarrow> x \<in> set (rmatch ic (alts rs) s)"
  by (induction rs rule: alts.induct) auto

lemma tails_self: "t \<in> set (tails t)"
  by (cases t) auto

lemma tails_append: "t \<in> set (tails (pre @ t))"
  by (induction pre) (auto simp: tails_self)

lemma search_anywhere:
  "rmatch ic r t \<noteq> [] \<Longrightarrow> search (compile ic False r) (pre @ t)"
  using tails_append [of t pre] by (auto simp: search_def compile_def list_ex_iff)

lemma contains_question_word_match:
  assumes w: "lower w' \<in> {''what'', ''how'', ''why'', ''when'', ''where''}"
    and ws: "ws \<noteq> []" "\<forall>c \<in> set ws. is_space c"
    and rest: "CHR 0x0A \<notin> set rest"
  shows "[] \<in> set (rmatch True contains_question_word (w' @ ws @ rest))"
proof -
  let ?W = "[''what'', ''how'', ''why'', ''when'', ''where'']"
  have low: "\<forall>v \<in> set ?W. lower v = v" by code_simp
  from w have "lower w' \<in> set ?W" by simp
  with low have "map char_lower w' = map char_lower (lower w')"
    by (metis lower_def)
  then have "ws @ rest \<in> set (rmatch True (lit (lower w')) (w' @ ws @ rest))"
    by (rule lit_match)
  moreover from w have "lit (lower w') \<in> set (map lit ?W)" by auto
  ultimately have 1: "ws @ rest \<in> set (rmatch True (alts (map lit ?W)) (w' @ ws @ rest))"
    by (rule alts_match [rotated])
  from ws have 2: "rest \<in> set (rmatch True (Many1 Space) (ws @ rest))"
    by (intro many1_run) auto
  from rest have "[] \<in> set (many True Dot (rest @ []))"
    by (intro many_run) auto
  then have 3: "[] \<in> set (rmatch True (Many Dot) rest)" by simp
  have 4: "[] \<in> set (rmatch True (Cat (Many (Chr CHR ''?'')) Eol) [])" by simp
  from 3 4 have 5: "[] \<in> set (rmatch True (Cat (Many Dot) (Cat (Many (Chr CHR ''?'')) Eol)) rest)"
    unfolding rmatch_Cat_iff [of _ _ "Many Dot"] by blast
  from 2 5 have 6: "[] \<in> set (rmatch True (Cat (Many1 Space) (Cat (Many Dot) (Cat (Many (Chr CHR ''?'')) Eol))) (ws @ rest))"
    unfolding rmatch_Cat_iff [of _ _ "Many1 Space"] by blast
  from 1 6 show ?thesis
    unfolding contains_question_word_def rmatch_Cat_iff [of _ _ "alts (map lit ?W)"] by blast
qed

lemma pattern5_in_init:
  "search (compile True False contains_question_word) t \<Longrightarrow>
   list_ex (\<lambda>p. search p t) (compiled_patterns init)"
  by (simp add: init_def question_patterns_def)

subsection \<open>Sentence splitting and the extraction loop\<close>

lemma many_hd: "many ic a s \<noteq> [] \<and> hd (many ic a s) = dropWhile (item_ok ic a) s"
  by (induction s) auto

lemma delimiter_item: "item_ok False (Cls ''.!?'') c = is_delimiter c"
  by (auto simp: is_delimiter_def)

lemma nonempty_match_delimiters:
  "nonempty_match sentence_delimiters s =
     (case s of [] \<Rightarrow> None
      | c # cs \<Rightarrow> if is_delimiter c then Some (dropWhile is_delimiter cs) else None)"
proof (cases s)
  case Nil
  then show ?thesis by (simp add: nonempty_match_def sentence_delimiters_def)
next
  case (Cons c cs)
  let ?a = "Cls ''.!?''"
  obtain m ms where m: "many False ?a cs = m # ms"
    using many_hd [of False ?a cs] by (cases "many False ?a cs") auto
  with many_hd [of False ?a cs] have "m = dropWhile (item_ok False ?a) cs" by simp
  then have md: "m = dropWhile is_delimiter cs"
    by (simp only: delimiter_item [abs_def])
  have "length (dropWhile is_delimiter cs) \<le> length cs" by (rule length_dropWhile_le)
  with Cons m md show ?thesis
    by (simp add: nonempty_match_def sentence_delimiters_def delimiter_item
             del: item_ok.simps)
qed

lemma split_runs_plain:
  "\<forall>c \<in> set s. \<not> is_delimiter c \<Longrightarrow> split_runs s = [s]"
  by (subst split_runs.simps) simp

lemma split_runs_cut:
  assumes "\<forall>c \<in> set cur. \<not> is_delimiter c" "is_delimiter c"
  shows "split_runs (cur @ c # cs) = cur # split_runs (dropWhile is_delimiter cs)"
  using assms by (subst split_runs.simps) (simp add: Let_def)

lemma re_split_scan_runs:
  "\<forall>c \<in> set cur. \<not> is_delimiter c \<Longrightarrow>
   re_split_scan sentence_delimiters cur s = split_runs (cur @ s)"
proof (induction "length s" arbitrary: s cur rule: less_induct)
  case less
  show ?case
  proof (cases s)
    case Nil
    with less.prems show ?thesis
      by (subst re_split_scan.simps) (simp add: nonempty_match_delimiters split_runs_plain)
  next
    case (Cons c cs)
    show ?thesis
    proof (cases "is_delimiter c")
      case True
      have "length (dropWhile is_delimiter cs) < length s"
        using length_dropWhile_le [of is_delimiter cs] Cons by simp
      then have "re_split_scan sentence_delimiters [] (dropWhile is_delimiter cs)
                 = split_runs ([] @ dropWhile is_delimiter cs)"
        by (intro less.hyps) simp_all
      with True Cons less.prems show ?thesis
        by (subst re_split_scan.simps)
           (simp add: nonempty_match_delimiters split_runs_cut)
    next
      case False
      with less.prems have "\<forall>x \<in> set (cur @ [c]). \<not> is_delimiter x" by simp
      then have "re_split_scan sentence_delimiters (cur @ [c]) cs = split_runs ((cur @ [c]) @ cs)"
        using Cons by (intro less.hyps) simp_all
      with False Cons show ?thesis
        by (subst re_split_scan.simps) (simp add: nonempty_match_delimiters)
    qed
  qed
qed

lemma re_split_runs: "re_split sentence_delimiters s = split_runs s"
  using re_split_scan_runs [of "[]" s] by (simp add: re_split_def)

lemma extract_loop_spec:
  "extract_loop self ss qs =
     Inr (qs @ map (\<lambda>f. if endswith f ''?'' then f else f @ ''?'')
                (filter (\<lambda>f. is_question self f = Inr True)
                   (filter (\<lambda>f. f \<noteq> []) (map strip ss))))"
proof (induction ss arbitrary: qs)
  case Nil
  then show ?case by simp
next
  case (Cons s ss)
  obtain b where b: "is_question self (strip s) = Inr b"
    using is_question_total by blast
  show ?case
  proof (cases "strip s = []")
    case True
    then show ?thesis by (simp add: Cons.IH)
  next
    case False
    with b show ?thesis by (cases b) (simp_all add: Cons.IH)
  qed
qed

lemma extract_questions_refines:
  "extract_questions self text = Inr (spec_extract_questions self text)"
  by (simp add: extract_questions_def spec_extract_questions_def re_split_runs extract_loop_spec)

lemma strip_subset: "c \<in> set (strip s) \<Longrightarrow> c \<in> set s"
  by (auto simp: strip_def dest!: set_dropWhileD)

lemma strip_blank: "list_all is_space s \<Longrightarrow> strip s = []"
  by (auto simp: strip_def list_all_iff dest: set_dropWhileD)

lemma space_no_delimiter: "is_space c \<Longrightarrow> \<not> is_delimiter c"
  by (auto simp: is_space_def is_delimiter_def)

lemma split_runs_step:
  "dropWhile (\<lambda>c. \<not> is_delimiter c) s \<noteq> [] \<Longrightarrow>
   split_runs s = takeWhile (\<lambda>c. \<not> is_delimiter c) s
                    # split_runs (dropWhile is_delimiter (dropWhile (\<lambda>c. \<not> is_delimiter c) s))"
  by (subst split_runs.simps) (simp only: Let_def if_False)

lemma split_runs_no_delimiter:
  "f \<in> set (split_runs s) \<Longrightarrow> c \<in> set f \<Longrightarrow> \<not> is_delimiter c"
proof (induction "length s" arbitrary: s rule: less_induct)
  case less
  let ?rest = "dropWhile (\<lambda>c. \<not> is_delimiter c) s"
  show ?case
  proof (cases "?rest = []")
    case True
    then have "\<forall>x \<in> set s. \<not> is_delimiter x" by (simp only: dropWhile_eq_Nil_conv)
    moreover from this have "split_runs s = [s]" by (rule split_runs_plain)
    ultimately show ?thesis using less.prems by simp
  next
    case False
    then obtain d ds where d: "?rest = d # ds" by (cases ?rest) auto
    then have "is_delimiter d" by (simp only: dropWhile_eq_Cons_conv) simp
    then have "length (dropWhile is_delimiter ?rest) < length ?rest"
      using length_dropWhile_le [of is_delimiter ds] by (simp only: d dropWhile.simps if_True) simp
    moreover have "length ?rest \<le> length s" by (rule length_dropWhile_le)
    ultimately have lt: "length (dropWhile is_delimiter ?rest) < length s" by linarith
    from less.prems(1) split_runs_step [OF False]
    have "f = takeWhile (\<lambda>c. \<not> is_delimiter c) s \<or> f \<in> set (split_runs (dropWhile is_delimiter ?rest))"
      by (simp only: set_simps insert_iff)
    then show ?thesis
    proof
      assume "f = takeWhile (\<lambda>c. \<not> is_delimiter c) s"
      with less.prems(2) have "c \<in> set (takeWhile (\<lambda>c. \<not> is_delimiter c) s)" by simp
      then show ?thesis by (rule set_takeWhileD [THEN conjunct2])
    next
      assume "f \<in> set (split_runs (dropWhile is_delimiter ?rest))"
      from less.hyps [OF lt this less.prems(2)] show ?thesis .
    qed
  qed
qed

subsection \<open>Question types and blank input\<close>

lemma first_starting_append:
  "list_all (\<lambda>v. \<not> startswith t v) pre \<Longrightarrow> startswith t w \<Longrightarrow>
   first_starting t (pre @ w # post) = Some w"
  by (induction pre) auto

lemma first_starting_member: "first_starting t W = Some w \<Longrightarrow> w \<in> set W"
  by (induction W) (auto split: if_splits)

lemma get_question_type_category:
  "get_question_type self question \<in>
     {''what'', ''when'', ''where'', ''who'', ''whom'', ''whose'', ''which'', ''why'', ''how'',
      ''yes/no'', ''explanation'', ''calculation'', ''other''}"
proof -
  let ?W = "[''what'', ''when'', ''where'', ''who'', ''whom'', ''whose'', ''which'', ''why'',
             ''how'']"
  show ?thesis
  proof (cases "first_starting (strip (lower question)) ?W")
    case None
    then show ?thesis
      by (simp add: get_question_type_def Let_def del: first_starting.simps)
  next
    case (Some w)
    then have "w \<in> set ?W" by (rule first_starting_member)
    with Some show ?thesis
      by (auto simp add: get_question_type_def Let_def simp del: first_starting.simps)
  qed
qed

lemma blank_not_question: "list_all is_space s \<Longrightarrow> is_question self s = Inr False"
  by (simp add: is_question_def strip_blank)

lemma blank_no_questions:
  assumes "list_all is_space s"
  shows "extract_questions self s = Inr []"
proof -
  from assms have "\<forall>c \<in> set s. \<not> is_delimiter c"
    by (auto simp: list_all_iff space_no_delimiter)
  then have "split_runs s = [s]" by (rule split_runs_plain)
  with assms show ?thesis
    by (simp add: extract_questions_refines spec_extract_questions_def strip_blank)
qed

lemma get_question_type_Nil: "get_question_type self [] = ''other''"
  by (simp add: get_question_type_def lower_def strip_def startswith_def split_ws_def
      yes_no_starters_def)


subsection \<open>The store\<close>

text \<open>
  \<open>take (length h) h' = h\<close> says that every object of the store \<open>h\<close> is in \<open>h'\<close> at its
  address, unchanged. \<open>extract_questions\<close> does change the store: it adds its list.
\<close>

lemma kept_length:
  assumes "take (length h) h' = h"
  shows "length h \<le> length h'"
proof -
  from assms have "length (take (length h) h') = length h" by (rule arg_cong)
  then show ?thesis by simp
qed

lemma kept_nth:
  assumes "take (length h) h' = h" and "i < length h"
  shows "i < length h'" and "h' ! i = h ! i"
proof -
  from kept_length [OF assms(1)] assms(2) show "i < length h'" by simp
  from assms(2) have "take (length h) h' ! i = h' ! i" by simp
  with assms(1) show "h' ! i = h ! i" by simp
qed

lemma kept_trans:
  assumes "take (length h) h1 = h" and "take (length h1) h2 = h1"
  shows "take (length h) h2 = h"
proof -
  from kept_length [OF assms(1)]
  have "take (length h) (take (length h1) h2) = take (length h) h2"
    by (simp add: min_def)
  with assms show ?thesis by simp
qed

lemma getattr_kept:
  assumes "take (length h) h' = h" and "getattr h self name = Inr a"
  shows "getattr h' self name = Inr a"
proof -
  from assms(2) have lt: "self < length h"
    by (auto simp: getattr_def split: if_splits)
  from kept_nth [OF assms(1) lt] assms(2) lt show ?thesis
    by (simp add: getattr_def)
qed

lemma attr_set_kept:
  assumes "take (length h) h' = h" and "attr_set h self name = Inr ws"
  shows "attr_set h' self name = Inr ws"
proof -
  from assms(2) obtain a where a: "getattr h self name = Inr a" and lt: "a < length h"
    by (auto simp: attr_set_def split: sum.splits if_splits)
  from getattr_kept [OF assms(1) a] kept_nth [OF assms(1) lt] assms(2) a lt show ?thesis
    by (simp add: attr_set_def)
qed

lemma attr_patterns_kept:
  assumes "take (length h) h' = h" and "attr_patterns h self name = Inr ps"
  shows "attr_patterns h' self name = Inr ps"
proof -
  from assms(2) obtain a where a: "getattr h self name = Inr a" and lt: "a < length h"
    by (auto simp: attr_patterns_def split: sum.splits if_splits)
  from getattr_kept [OF assms(1) a] kept_nth [OF assms(1) lt] assms(2) a lt show ?thesis
    by (simp add: attr_patterns_def)
qed

lemma load_attrs:
  assumes "load h self = Some d"
  shows "attr_set h self ''question_words'' = Inr (question_words d)"
    and "attr_patterns h self ''compiled_patterns'' = Inr (compiled_patterns d)"
  using assms by (auto simp: load_def split: sum.splits)

lemma load_kept:
  assumes "load h self = Some d" and "take (length h) h' = h"
  shows "load h' self = Some d"
  using attr_set_kept [OF assms(2) load_attrs(1) [OF assms(1)]]
        attr_patterns_kept [OF assms(2) load_attrs(2) [OF assms(1)]]
  by (simp add: load_def)

lemma is_question_h_load:
  assumes "load h self = Some d"
  shows "is_question_h self t h =
           ((case is_question d t of Inl e \<Rightarrow> Inl (Raised e) | Inr b \<Rightarrow> Inr b), h)"
  using load_attrs [OF assms]
  by (simp add: is_question_h_def is_question_def Let_def split: list.splits)

lemma list_append_last:
  "list_append (h0 @ [StrList qs]) (length h0) x = Inr (h0 @ [StrList (qs @ [x])])"
  by (simp add: list_append_def)

lemma extract_loop_h_load:
  assumes "load h0 self = Some d"
  shows "extract_loop_h self (length h0) ss (h0 @ [StrList qs]) =
           (Inr (), h0 @ [StrList (qs @ map (\<lambda>f. if endswith f ''?'' then f else f @ ''?'')
                (filter (\<lambda>f. is_question d f = Inr True)
                   (filter (\<lambda>f. f \<noteq> []) (map strip ss))))])"
proof (induction ss arbitrary: qs)
  case Nil
  then show ?case by simp
next
  case (Cons s ss)
  have ld: "load (h0 @ [StrList qs]) self = Some d"
    using assms by (rule load_kept) simp
  obtain b where b: "is_question d (strip s) = Inr b"
    using is_question_total by blast
  show ?case
  proof (cases "strip s = []")
    case True
    then show ?thesis by (simp add: Cons.IH)
  next
    case False
    with b show ?thesis
      by (cases b) (simp_all add: is_question_h_load [OF ld] list_append_last Cons.IH)
  qed
qed

lemma extract_questions_h_load:
  assumes "load h self = Some d"
  shows "extract_questions_h self t h =
           (Inr (length h), h @ [StrList (spec_extract_questions d t)])"
  using extract_loop_h_load [OF assms, of "re_split sentence_delimiters t" "[]"]
  by (simp add: extract_questions_h_def alloc_def spec_extract_questions_def re_split_runs)

lemma get_question_type_h_eq:
  "get_question_type_h self q h = (Inr (get_question_type d q), h)"
  by (simp add: get_question_type_h_def get_question_type_def Let_def
           split: option.splits del: first_starting.simps)

lemma invoke_load:
  assumes "load h self = Some d"
  shows "fst (invoke self c h) = observed d c"
    and "take (length h) (snd (invoke self c h)) = h"
proof -
  have "fst (invoke self c h) = observed d c \<and> take (length h) (snd (invoke self c h)) = h"
  proof (cases c)
    case (IsQuestion t)
    then show ?thesis
      by (simp add: is_question_h_load [OF assms] split: sum.splits)
  next
    case (ExtractQuestions t)
    then show ?thesis
      by (simp add: extract_questions_h_load [OF assms] extract_questions_refines list_at_def)
  next
    case (GetQuestionType t)
    then show ?thesis
      by (simp add: get_question_type_h_eq [of _ _ _ d])
  qed
  then show "fst (invoke self c h) = observed d c"
    and "take (length h) (snd (invoke self c h)) = h" by simp_all
qed

lemma run_load:
  assumes "load h self = Some d"
  shows "fst (run self cs h) = map (observed d) cs \<and> take (length h) (snd (run self cs h)) = h"
  using assms
proof (induction cs arbitrary: h)
  case Nil
  then show ?case by simp
next
  case (Cons c cs)
  let ?h1 = "snd (invoke self c h)"
  from invoke_load [OF Cons.prems, of c]
  have o: "fst (invoke self c h) = observed d c" and k: "take (length h) ?h1 = h" by simp_all
  from Cons.prems k have "load ?h1 self = Some d" by (rule load_kept)
  from Cons.IH [OF this]
  have r: "fst (run self cs ?h1) = map (observed d) cs"
    and k2: "take (length ?h1) (snd (run self cs ?h1)) = ?h1" by simp_all
  from kept_trans [OF k k2] o r show ?case
    by (simp add: case_prod_beta)
qed

lemma new_detector_load:
  "load (snd (new_detector h0)) (fst (new_detector h0)) = Some init"
  by (simp add: new_detector_def init_object_def alloc_def setattr_def attr_sources_def
        getattr_def load_def attr_set_def attr_patterns_def init_def nth_append Let_def)

lemma invoke_extract_allocates:
  assumes "load h self = Some d"
  shows "snd (invoke self (ExtractQuestions t) h) = h @ [StrList (spec_extract_questions d t)]"
  by (simp add: extract_questions_h_load [OF assms] list_at_def)

section \<open>The claims\<close>

text \<open>
  C1, as the code has it. The length guard comes before the test for the question
  mark, so the claim needs it as a hypothesis: a text that ends with \<open>?\<close> and whose
  trimmed form has at least three characters is a question.
\<close>

theorem question_mark_is_question:
  "3 \<le> length (strip text) \<Longrightarrow> endswith (strip text) ''?'' \<Longrightarrow>
   is_question self text = Inr True"
  by (auto simp add: is_question_def Let_def strip_Nil)

text \<open>The theorem at \<open>" Really? "\<close>.\<close>

theorem question_mark_is_question_witness:
  "3 \<le> length (strip '' Really? '') \<and> endswith (strip '' Really? '') ''?'' \<and>
   is_question init '' Really? '' = Inr True"
proof -
  have h1: "3 \<le> length (strip '' Really? '')" by code_simp
  have h2: "endswith (strip '' Really? '') ''?''" by code_simp
  from question_mark_is_question [OF h1 h2]
  have "is_question init '' Really? '' = Inr True" .
  with h1 h2 show ?thesis by blast
qed

text \<open>C1 as stated fails: \<open>"a?"\<close> ends with \<open>?\<close> and is no question.\<close>

theorem question_mark_counterexample:
  "endswith (strip ''a?'') ''?'' \<and> is_question init ''a?'' = Inr False"
  by code_simp

text \<open>
  C2, as the code has it. The guard counts every character of the trimmed text,
  whitespace inside it included: a text whose trimmed form has fewer than three
  characters is never a question.
\<close>

theorem short_text_not_question:
  "length (strip text) < 3 \<Longrightarrow> is_question self text = Inr False"
  by (simp add: is_question_def)

text \<open>The theorem at \<open>" is "\<close>, whose only token is an auxiliary.\<close>

theorem short_text_not_question_witness:
  "length (strip '' is '') < 3 \<and> is_question init '' is '' = Inr False"
proof -
  have h: "length (strip '' is '') < 3" by code_simp
  from short_text_not_question [OF h] have "is_question init '' is '' = Inr False" .
  with h show ?thesis by blast
qed

text \<open>
  C2 as stated fails: \<open>"a ?"\<close> has two characters that are not whitespace, and it is a
  question.
\<close>

theorem short_text_counterexample:
  "length (filter (\<lambda>c. \<not> is_space c) (strip ''a ?'')) < 3 \<and>
   is_question init ''a ?'' = Inr True"
  by code_simp

text \<open>
  C3. \<open>extract_questions\<close> returns what the specification describes: the text cut
  at the maximal runs of \<open>.\<close>, \<open>!\<close> and \<open>?\<close>, each fragment trimmed, the empty
  ones dropped, the fragments that \<open>is_question\<close> accepts kept in their order, each
  with a \<open>?\<close> appended unless it ends with one; and the example of the
  specification evaluates to its two questions.
\<close>

theorem extract_questions_spec:
  "extract_questions self text = Inr (spec_extract_questions self text) \<and>
   extract_questions init ''The sun is hot. What is its temperature. Tell me more.''
     = Inr [''What is its temperature?'', ''Tell me more?'']"
proof
  show "extract_questions self text = Inr (spec_extract_questions self text)"
    by (rule extract_questions_refines)
  show "extract_questions init ''The sun is hot. What is its temperature. Tell me more.''
     = Inr [''What is its temperature?'', ''Tell me more?'']"
    by code_simp
qed

text \<open>The theorem at \<open>"Is it? No! Why not"\<close>.\<close>

theorem extract_questions_spec_witness:
  "spec_extract_questions init ''Is it? No! Why not''  = [''Is it?'', ''Why not?''] \<and>
   extract_questions init ''Is it? No! Why not'' = Inr [''Is it?'', ''Why not?'']"
proof -
  have h: "spec_extract_questions init ''Is it? No! Why not'' = [''Is it?'', ''Why not?'']"
    by code_simp
  from extract_questions_spec [of init "''Is it? No! Why not''"] h
  have "extract_questions init ''Is it? No! Why not'' = Inr [''Is it?'', ''Why not?'']"
    by simp
  with h show ?thesis by blast
qed

text \<open>
  C4. The question words are tried in the order of the list; the first one that the
  lowered, trimmed text starts with is returned, whatever the later checks (the
  auxiliaries among them) would say.
\<close>

theorem question_word_wins:
  assumes "[''what'', ''when'', ''where'', ''who'', ''whom'', ''whose'', ''which'', ''why'',
            ''how''] = pre @ w # post"
    and "list_all (\<lambda>v. \<not> startswith (strip (lower question)) v) pre"
    and "startswith (strip (lower question)) w"
  shows "get_question_type self question = w"
  using first_starting_append [OF assms(2,3), of post]
  by (simp add: get_question_type_def Let_def del: first_starting.simps flip: assms(1))

text \<open>The theorem at \<open>"How should I proceed"\<close>: \<open>how\<close>, not \<open>yes/no\<close>.\<close>

theorem question_word_wins_witness:
  "[''what'', ''when'', ''where'', ''who'', ''whom'', ''whose'', ''which'', ''why'', ''how'']
     = [''what'', ''when'', ''where'', ''who'', ''whom'', ''whose'', ''which'', ''why'']
         @ ''how'' # [] \<and>
   list_all (\<lambda>v. \<not> startswith (strip (lower ''How should I proceed'')) v)
     [''what'', ''when'', ''where'', ''who'', ''whom'', ''whose'', ''which'', ''why''] \<and>
   startswith (strip (lower ''How should I proceed'')) ''how'' \<and>
   get_question_type init ''How should I proceed'' = ''how''"
proof -
  have h1: "[''what'', ''when'', ''where'', ''who'', ''whom'', ''whose'', ''which'', ''why'',
             ''how'']
     = [''what'', ''when'', ''where'', ''who'', ''whom'', ''whose'', ''which'', ''why'']
         @ ''how'' # []"
    by simp
  have h2: "list_all (\<lambda>v. \<not> startswith (strip (lower ''How should I proceed'')) v)
     [''what'', ''when'', ''where'', ''who'', ''whom'', ''whose'', ''which'', ''why'']"
    by code_simp
  have h3: "startswith (strip (lower ''How should I proceed'')) ''how''" by code_simp
  from question_word_wins [OF h1 h2 h3]
  have "get_question_type init ''How should I proceed'' = ''how''" .
  with h1 h2 h3 show ?thesis by blast
qed

text \<open>
  C5, as the code has it. The fifth pattern asks for whitespace right after the
  question word and, as \<open>.\<close> matches no line feed, for no line feed after that
  whitespace: a text whose trimmed form holds one of the five words in any case, then
  one or more whitespace characters, then a rest free of line feeds, is a question.
\<close>

theorem embedded_question_word:
  assumes "strip text = pre @ w @ ws @ rest"
    and "lower w \<in> {''what'', ''how'', ''why'', ''when'', ''where''}"
    and "ws \<noteq> []" and "list_all is_space ws"
    and "CHR 0x0A \<notin> set rest"
  shows "is_question init text = Inr True"
proof -
  from assms(2) have "3 \<le> length (lower w)" by auto
  then have "3 \<le> length (strip text)" by (simp add: assms(1) lower_def)
  moreover from assms(4) have "\<forall>c \<in> set ws. is_space c" by (simp add: list_all_iff)
  with assms(2,3,5) have "[] \<in> set (rmatch True contains_question_word (w @ ws @ rest))"
    by (intro contains_question_word_match)
  then have "rmatch True contains_question_word (w @ ws @ rest) \<noteq> []" by auto
  then have "search (compile True False contains_question_word) (strip text)"
    unfolding assms(1) by (rule search_anywhere)
  then have "list_ex (\<lambda>p. search p (strip text)) (compiled_patterns init)"
    by (rule pattern5_in_init)
  ultimately show ?thesis
    by (auto simp add: is_question_def Let_def strip_Nil)
qed

text \<open>The theorem at \<open>"I know How it works"\<close>.\<close>

theorem embedded_question_word_witness:
  "strip ''I know How it works'' = ''I know '' @ ''How'' @ '' '' @ ''it works'' \<and>
   lower ''How'' \<in> {''what'', ''how'', ''why'', ''when'', ''where''} \<and>
   '' '' \<noteq> [] \<and> list_all is_space '' '' \<and> CHR 0x0A \<notin> set ''it works'' \<and>
   is_question init ''I know How it works'' = Inr True"
proof -
  have h1: "strip ''I know How it works'' = ''I know '' @ ''How'' @ '' '' @ ''it works''"
    by code_simp
  have h2: "lower ''How'' \<in> {''what'', ''how'', ''why'', ''when'', ''where''}" by code_simp
  have h3: "'' '' \<noteq> []" by simp
  have h4: "list_all is_space '' ''" by code_simp
  have h5: "CHR 0x0A \<notin> set ''it works''" by simp
  from embedded_question_word [OF h1 h2 h3 h4 h5]
  have "is_question init ''I know How it works'' = Inr True" .
  with h1 h2 h3 h4 h5 show ?thesis by blast
qed

text \<open>
  C5 as stated fails: \<open>"whatever works"\<close> contains \<open>what\<close> followed by more
  characters, and is no question.
\<close>

theorem embedded_question_word_counterexample:
  "strip ''whatever works'' = [] @ ''what'' @ ''ever works'' \<and>
   3 \<le> length (filter (\<lambda>c. \<not> is_space c) (strip ''whatever works'')) \<and>
   is_question init ''whatever works'' = Inr False"
  by code_simp

text \<open>
  Why the rest must hold no line feed: here \<open>what\<close> is followed by a space, and a
  line feed further on keeps the fifth pattern from reaching the end of the text.
\<close>

lemma line_feed_after_question_word:
  "is_question init (''I know what a'' @ [CHR 0x0A] @ ''b'') = Inr False"
  by code_simp

text \<open>
  C6. A text of two or more tokens whose first token, lowered, is an auxiliary or a
  modal is a question, whatever the word set and the patterns of the detector: if no
  earlier check answers, the check for the inverted sentence structure does.
\<close>

theorem auxiliary_first_is_question:
  assumes "2 \<le> length (split_ws (strip text))"
    and "lower (split_ws (strip text) ! 0) \<in>
          {''is'', ''are'', ''was'', ''were'', ''do'', ''does'', ''did'', ''can'', ''could'',
           ''will'', ''would'', ''should'', ''shall'', ''may'', ''might'', ''must'', ''have'',
           ''has'', ''had''}"
  shows "is_question self text = Inr True"
proof -
  from assms(1) have len: "3 \<le> length (strip text)" by (rule two_tokens_length)
  from assms(1) obtain w ws where sp: "split_ws (strip text) = w # ws"
    by (cases "split_ws (strip text)") auto
  with assms(2) have aux: "lower w \<in> auxiliaries" by (simp add: auxiliaries_def)
  from sp have words: "split_ws (lower (strip text)) = lower w # map lower ws"
    by (simp add: split_ws_lower)
  from assms(1) sp have "2 \<le> length (lower w # map lower ws)" by simp
  with len sp aux words show ?thesis
    by (auto simp add: is_question_def Let_def strip_Nil)
qed

text \<open>The theorem at \<open>"Should we go"\<close>.\<close>

theorem auxiliary_first_is_question_witness:
  "2 \<le> length (split_ws (strip ''Should we go'')) \<and>
   lower (split_ws (strip ''Should we go'') ! 0) \<in>
          {''is'', ''are'', ''was'', ''were'', ''do'', ''does'', ''did'', ''can'', ''could'',
           ''will'', ''would'', ''should'', ''shall'', ''may'', ''might'', ''must'', ''have'',
           ''has'', ''had''} \<and>
   is_question init ''Should we go'' = Inr True"
proof -
  have h1: "2 \<le> length (split_ws (strip ''Should we go''))" by code_simp
  have h2: "lower (split_ws (strip ''Should we go'') ! 0) \<in>
          {''is'', ''are'', ''was'', ''were'', ''do'', ''does'', ''did'', ''can'', ''could'',
           ''will'', ''would'', ''should'', ''shall'', ''may'', ''might'', ''must'', ''have'',
           ''has'', ''had''}" by code_simp
  from auxiliary_first_is_question [OF h1 h2]
  have "is_question init ''Should we go'' = Inr True" .
  with h1 h2 show ?thesis by blast
qed

text \<open>
  C7. The three operations return a value on every text: \<open>is_question\<close> and
  \<open>extract_questions\<close> never raise, \<open>get_question_type\<close> returns one of the thirteen
  categories; on a text of whitespace only, the empty text included, \<open>is_question\<close>
  is false and \<open>extract_questions\<close> is empty; \<open>get_question_type\<close> of the empty
  text is \<open>other\<close>.
\<close>

theorem operations_total:
  "(\<exists>b. is_question self text = Inr b) \<and>
   (\<exists>qs. extract_questions self text = Inr qs) \<and>
   get_question_type self text \<in>
     {''what'', ''when'', ''where'', ''who'', ''whom'', ''whose'', ''which'', ''why'', ''how'',
      ''yes/no'', ''explanation'', ''calculation'', ''other''} \<and>
   (list_all is_space blank \<longrightarrow>
      is_question self blank = Inr False \<and> extract_questions self blank = Inr []) \<and>
   is_question self [] = Inr False \<and> extract_questions self [] = Inr [] \<and>
   get_question_type self [] = ''other''"
  using is_question_total [of self "text"] extract_questions_refines [of self "text"]
    get_question_type_category [of self "text"]
    blank_not_question [of blank self] blank_no_questions [of blank self]
    blank_not_question [of "[]" self] blank_no_questions [of "[]" self]
    get_question_type_Nil [of self]
  by simp

text \<open>The theorem at a text of three spaces and at \<open>"Tell me about gravity"\<close>.\<close>

theorem operations_total_witness:
  "list_all is_space ''   '' \<and> is_question init ''   '' = Inr False \<and>
   extract_questions init ''   '' = Inr [] \<and>
   (\<exists>b. is_question init ''Tell me about gravity'' = Inr b) \<and>
   (\<exists>qs. extract_questions init ''Tell me about gravity'' = Inr qs) \<and>
   get_question_type init ''Tell me about gravity'' = ''explanation''"
proof -
  have h: "list_all is_space ''   ''" by code_simp
  have t: "get_question_type init ''Tell me about gravity'' = ''explanation''" by code_simp
  from operations_total [of init "''Tell me about gravity''" "''   ''"] h t
  show ?thesis by blast
qed

text \<open>
  C8. Let \<open>self\<close> be a detector with the tables \<open>d\<close> in a store. Any sequence of calls
  leaves every object of that store at its address and unchanged, the detector and its
  tables among them; a call made after the sequence returns what the same call returns
  on any detector with the same tables, in any store; the same call made twice returns
  the same value twice; and that value is the one the functions above compute from the
  tables and the text.
\<close>

theorem detector_calls_deterministic:
  assumes "load h self = Some d" and "load h2 self2 = Some d"
  shows "take (length h) (snd (run self cs h)) = h \<and>
         load (snd (run self cs h)) self = Some d \<and>
         fst (invoke self c (snd (run self cs h))) = fst (invoke self2 c h2) \<and>
         fst (run self [c, c] h) = [fst (invoke self c h), fst (invoke self c h)] \<and>
         fst (invoke self c h) = observed d c"
proof -
  from run_load [OF assms(1), of cs]
  have k: "take (length h) (snd (run self cs h)) = h" by simp
  with assms(1) have l: "load (snd (run self cs h)) self = Some d" by (rule load_kept)
  from invoke_load(1) [OF l] invoke_load(1) [OF assms(2)]
  have e: "fst (invoke self c (snd (run self cs h))) = fst (invoke self2 c h2)" by simp
  from run_load [OF assms(1), of "[c, c]"] invoke_load(1) [OF assms(1), of c]
  have t: "fst (run self [c, c] h) = [fst (invoke self c h), fst (invoke self c h)]" by simp
  from k l e t invoke_load(1) [OF assms(1), of c] show ?thesis by simp
qed

text \<open>The theorem at the detector that \<open>QuestionDetector()\<close> creates in the empty store.\<close>

theorem detector_calls_deterministic_witness:
  "load (snd (new_detector [])) (fst (new_detector [])) = Some init \<and>
   take (length (snd (new_detector [])))
     (snd (run (fst (new_detector [])) [ExtractQuestions ''Why. No.'', IsQuestion ''Is it'']
            (snd (new_detector [])))) = snd (new_detector []) \<and>
   fst (invoke (fst (new_detector [])) (ExtractQuestions ''Is it. No'')
         (snd (run (fst (new_detector [])) [ExtractQuestions ''Why. No.'', IsQuestion ''Is it'']
                (snd (new_detector []))))) = RetList [''Is it?''] \<and>
   fst (run (fst (new_detector [])) [ExtractQuestions ''Is it. No'', ExtractQuestions ''Is it. No'']
         (snd (new_detector []))) = [RetList [''Is it?''], RetList [''Is it?'']]"
proof -
  let ?h = "snd (new_detector [])" and ?self = "fst (new_detector [])"
  let ?c = "ExtractQuestions ''Is it. No''"
  let ?cs = "[ExtractQuestions ''Why. No.'', IsQuestion ''Is it'']"
  have l: "load ?h ?self = Some init" by (rule new_detector_load)
  have o: "observed init ?c = RetList [''Is it?'']" by code_simp
  note t = detector_calls_deterministic [OF l l, of ?cs ?c]
  from t have k: "take (length ?h) (snd (run ?self ?cs ?h)) = ?h" by (rule conjunct1)
  from t have e: "fst (invoke ?self ?c (snd (run ?self ?cs ?h))) = fst (invoke ?self ?c ?h)"
    by (elim conjE)
  from t have r: "fst (run ?self [?c, ?c] ?h) = [fst (invoke ?self ?c ?h), fst (invoke ?self ?c ?h)]"
    by (elim conjE)
  from t have b: "fst (invoke ?self ?c ?h) = observed init ?c" by (elim conjE)
  from e b o have e': "fst (invoke ?self ?c (snd (run ?self ?cs ?h))) = RetList [''Is it?'']"
    by (simp only:)
  from r b o have r': "fst (run ?self [?c, ?c] ?h) = [RetList [''Is it?''], RetList [''Is it?'']]"
    by (simp only:)
  from l k e' r' show ?thesis by (intro conjI)
qed

text \<open>
  C9. \<open>is_question\<close> always returns a truth value, never the \<open>IndexError\<close> of
  \<open>text.split()[0]\<close>: once the trimmed text has three characters or more it has a
  token.
\<close>

theorem first_word_lookup_defined:
  "(\<exists>b. is_question self text = Inr b) \<and>
   (3 \<le> length (strip text) \<longrightarrow> split_ws (strip text) \<noteq> [])"
  using is_question_total [of self "text"] split_strip_nonempty [of "text"] by blast

text \<open>The theorem at \<open>"The sky is blue"\<close>, which reaches the lookup.\<close>

theorem first_word_lookup_defined_witness:
  "3 \<le> length (strip ''The sky is blue'') \<and> split_ws (strip ''The sky is blue'') \<noteq> [] \<and>
   is_question init ''The sky is blue'' = Inr False"
proof -
  have h: "3 \<le> length (strip ''The sky is blue'')" by code_simp
  from first_word_lookup_defined [of init "''The sky is blue''"] h
  have "split_ws (strip ''The sky is blue'') \<noteq> []" by blast
  moreover have "is_question init ''The sky is blue'' = Inr False" by code_simp
  ultimately show ?thesis using h by blast
qed

text \<open>
  C10. Every string that \<open>extract_questions\<close> returns is a fragment without
  \<open>?\<close> to which the \<open>?\<close> was appended: it ends with \<open>?\<close>, holds exactly one \<open>?\<close>
  and neither \<open>.\<close> nor \<open>!\<close>.
\<close>

theorem extracted_question_shape:
  assumes "extract_questions self text = Inr qs" and "q \<in> set qs"
  shows "(\<exists>f. q = f @ ''?'' \<and> \<not> endswith f ''?'') \<and> endswith q ''?'' \<and>
         length (filter (\<lambda>c. c = CHR ''?'') q) = 1 \<and>
         CHR ''.'' \<notin> set q \<and> CHR ''!'' \<notin> set q"
proof -
  from assms have "q \<in> set (spec_extract_questions self text)"
    by (simp add: extract_questions_refines)
  then obtain s where s: "s \<in> set (split_runs text)"
    and q: "q = (if endswith (strip s) ''?'' then strip s else strip s @ ''?'')"
    by (auto simp: spec_extract_questions_def)
  have nd: "\<forall>c \<in> set (strip s). \<not> is_delimiter c"
    using split_runs_no_delimiter [OF s] strip_subset by blast
  then have nq: "CHR ''?'' \<notin> set (strip s)" and ns: "CHR ''.'' \<notin> set (strip s)"
    and nb: "CHR ''!'' \<notin> set (strip s)"
    by (auto simp: is_delimiter_def)
  have ne: "\<not> endswith (strip s) ''?''"
  proof
    assume "endswith (strip s) ''?''"
    then have "drop (length (strip s) - 1) (strip s) = ''?''" by (simp add: endswith_def)
    then have "CHR ''?'' \<in> set (drop (length (strip s) - 1) (strip s))" by simp
    then have "CHR ''?'' \<in> set (strip s)" by (rule in_set_dropD)
    with nq show False by simp
  qed
  with q have q': "q = strip s @ ''?''" by simp
  from nq have "filter (\<lambda>c. c = CHR ''?'') (strip s) = []"
    by (auto simp: filter_empty_conv)
  with q' ne ns nb show ?thesis by (auto simp: endswith_def)
qed

text \<open>The theorem at \<open>"Why?! Because. How so?"\<close>.\<close>

theorem extracted_question_shape_witness:
  "extract_questions init ''Why?! Because. How so?'' = Inr [''Why?'', ''How so?''] \<and>
   ''How so?'' \<in> set [''Why?'', ''How so?''] \<and>
   (\<exists>f. ''How so?'' = f @ ''?'' \<and> \<not> endswith f ''?'') \<and> endswith ''How so?'' ''?'' \<and>
         length (filter (\<lambda>c. c = CHR ''?'') ''How so?'') = 1 \<and>
         CHR ''.'' \<notin> set ''How so?'' \<and> CHR ''!'' \<notin> set ''How so?''"
proof -
  have h1: "extract_questions init ''Why?! Because. How so?'' = Inr [''Why?'', ''How so?'']"
    by code_simp
  have h2: "''How so?'' \<in> set [''Why?'', ''How so?'']" by simp
  from extracted_question_shape [OF h1 h2] h1 h2 show ?thesis by blast
qed

end
